theory Spec2Isabelle
  imports Complex_Main
begin

section \<open>Numbers, timestamps and errors\<close>

text \<open>
  Python's \<open>float\<close> is modelled by exact real arithmetic: rounding, overflow and the
  infinities are outside the model. The one non-finite value the program creates itself is
  \<open>float("nan")\<close>, the sentinel of the benchmark aggregator; the benchmark prices are
  therefore values of \<open>pyfloat\<close>, a real number or \<open>NaN\<close>. Venue prices, liquidities,
  reserves and amounts are finite inputs and are reals.

  A naive \<open>datetime\<close> is a count of microseconds, a \<open>timedelta\<close> a difference of two
  such counts, and \<open>timedelta.total_seconds()\<close> divides by \<open>10**6\<close>.
\<close>

datatype py_error = ZeroDivisionError | KeyError | ValueError | IndexError

datatype pyfloat = NaN | Fin real

type_synonym datetime = int

type_synonym timedelta = int

fun isnan :: "pyfloat \<Rightarrow> bool" where
  "isnan NaN = True"
| "isnan (Fin x) = False"

text \<open>Arithmetic of Python floats: NaN propagates, and every comparison with NaN is false.\<close>

fun float_sub :: "pyfloat \<Rightarrow> pyfloat \<Rightarrow> pyfloat" where
  "float_sub (Fin x) (Fin y) = Fin (x - y)"
| "float_sub _ _ = NaN"

fun float_mul :: "pyfloat \<Rightarrow> pyfloat \<Rightarrow> pyfloat" where
  "float_mul (Fin x) (Fin y) = Fin (x * y)"
| "float_mul _ _ = NaN"

text \<open>Python's \<open>/\<close> on floats raises \<open>ZeroDivisionError\<close> when the divisor is zero.\<close>

fun float_truediv :: "pyfloat \<Rightarrow> pyfloat \<Rightarrow> py_error + pyfloat" where
  "float_truediv x (Fin y) =
     (if y = 0 then Inl ZeroDivisionError
      else (case x of NaN \<Rightarrow> Inr NaN | Fin a \<Rightarrow> Inr (Fin (a / y))))"
| "float_truediv x NaN = Inr NaN"

fun float_abs :: "pyfloat \<Rightarrow> pyfloat" where
  "float_abs (Fin x) = Fin \<bar>x\<bar>"
| "float_abs NaN = NaN"

fun float_lt :: "pyfloat \<Rightarrow> pyfloat \<Rightarrow> bool" where
  "float_lt (Fin x) (Fin y) = (x < y)"
| "float_lt _ _ = False"

definition total_seconds :: "timedelta \<Rightarrow> real" where
  "total_seconds td = real_of_int td / 1000000"

section \<open>oracle\_anomaly\_demo.py: the detectors\<close>

subsection \<open>Staleness\<close>

definition detect_staleness :: "datetime \<Rightarrow> datetime \<Rightarrow> int \<Rightarrow> bool" where
  "detect_staleness current_ts last_update_ts max_staleness_seconds =
     (total_seconds (current_ts - last_update_ts) > real_of_int max_staleness_seconds)"

definition default_max_staleness_seconds :: int where
  "default_max_staleness_seconds = 40"

text \<open>\<open>timedelta(seconds=n)\<close>.\<close>

definition seconds :: "int \<Rightarrow> timedelta" where
  "seconds n = n * 1000000"

subsection \<open>Flash-loan pattern\<close>

text \<open>
  \<open>recent_benchmarks[-3:]\<close> is the list of the last three elements; unpacking it into three
  names raises \<open>ValueError\<close> when it has another length, which the length test excludes.
\<close>

definition detect_flash_loan_pattern :: "pyfloat list \<Rightarrow> pyfloat \<Rightarrow> py_error + bool" where
  "detect_flash_loan_pattern recent_benchmarks spike_threshold_pct =
     (if length recent_benchmarks < 3 then Inr False
      else
        (case drop (length recent_benchmarks - 3) recent_benchmarks of
           [prev_prev, prev, current] \<Rightarrow>
             if isnan prev_prev \<or> isnan prev \<or> isnan current then Inr False
             else
               (case float_truediv (float_sub current prev_prev) prev_prev of
                  Inl e \<Rightarrow> Inl e
                | Inr q \<Rightarrow>
                    let jump_pct = float_mul q (Fin 100) in
                    if float_lt jump_pct spike_threshold_pct then Inr False
                    else
                      let revert_toward_prev =
                            float_lt (float_abs (float_sub prev prev_prev))
                                     (float_abs (float_sub current prev_prev))
                      in Inr revert_toward_prev)
         | _ \<Rightarrow> Inl ValueError))"

definition default_spike_threshold_pct :: pyfloat where
  "default_spike_threshold_pct = Fin 4"

subsection \<open>Thin liquidity\<close>

text \<open>
  \<open>np.quantile(a, q)\<close> is numpy library code. It is modelled after numpy's default method
  \<open>linear\<close>: the sorted array is read at the virtual index \<open>(n - 1) * q\<close>, interpolating
  linearly between the two neighbouring elements; a \<open>q\<close> outside \<open>[0, 1]\<close> raises
  \<open>ValueError\<close>. The detector only calls it on at least ten samples; the empty array is
  an error of the model.
\<close>

definition np_quantile :: "real list \<Rightarrow> real \<Rightarrow> py_error + real" where
  "np_quantile a q =
     (if \<not> (0 \<le> q \<and> q \<le> 1) then Inl ValueError
      else if a = [] then Inl IndexError
      else
        let arr = sort a;
            n = length arr;
            virtual_index = real (n - 1) * q;
            previous_index = nat \<lfloor>virtual_index\<rfloor>;
            next_index = min (previous_index + 1) (n - 1);
            gamma = virtual_index - real previous_index
        in Inr (arr ! previous_index + (arr ! next_index - arr ! previous_index) * gamma))"

definition detect_thin_liquidity :: "real \<Rightarrow> real list \<Rightarrow> real \<Rightarrow> py_error + bool" where
  "detect_thin_liquidity total_liquidity rolling_liquidity quantile_threshold =
     (if length rolling_liquidity < 10 then Inr False
      else
        (case np_quantile rolling_liquidity quantile_threshold of
           Inl e \<Rightarrow> Inl e
         | Inr q \<Rightarrow> Inr (total_liquidity < q)))"

definition default_quantile_threshold :: real where
  "default_quantile_threshold = 0.2"

section \<open>oracle\_anomaly\_demo.py: the aggregator and the orchestrator\<close>

record VenuePoint =
  ts :: datetime
  venue :: string
  price :: real
  liquidity :: real

record BenchmarkPoint =
  ts :: datetime
  benchmark_price :: pyfloat
  staleness_flag :: bool
  thin_liquidity_flag :: bool
  flash_loan_flag :: bool

text \<open>
  \<open>weights = liqs / liqs.sum()\<close> divides every element of the array by the sum, and
  \<open>(weights * prices).sum()\<close> sums the elementwise products.
\<close>

definition venue_weights :: "real list \<Rightarrow> real list" where
  "venue_weights liqs = map (\<lambda>l. l / sum_list liqs) liqs"

definition compute_liquidity_weighted_benchmark :: "VenuePoint list \<Rightarrow> pyfloat \<times> real" where
  "compute_liquidity_weighted_benchmark points =
     (let prices = map price points;
          liqs = map liquidity points
      in if sum_list liqs \<le> 0 then (NaN, 0)
         else
           let weights = venue_weights liqs;
               benchmark = sum_list (map2 (*) weights prices);
               total_liq = sum_list liqs
           in (Fin benchmark, total_liq))"

text \<open>
  The same function with the divisions it performs made visible: the second component
  lists the denominator of every division of the call, in order (\<open>liqs / liqs.sum()\<close>
  divides once for each venue).
\<close>

definition benchmark_divisions :: "VenuePoint list \<Rightarrow> (pyfloat \<times> real) \<times> real list" where
  "benchmark_divisions points =
     (let prices = map price points;
          liqs = map liquidity points
      in if sum_list liqs \<le> 0 then ((NaN, 0), [])
         else
           let weights = map (\<lambda>l. l / sum_list liqs) liqs;
               divisors = map (\<lambda>l. sum_list liqs) liqs;
               benchmark = sum_list (map2 (*) weights prices);
               total_liq = sum_list liqs
           in ((Fin benchmark, total_liq), divisors))"

text \<open>
  The local variables of \<open>run_demo\<close> that the loop over the sorted timestamps updates.
\<close>

record demo_state =
  benchmark_history :: "BenchmarkPoint list"
  rolling_liq :: "real list"
  rolling_benchmarks :: "pyfloat list"
  last_update_ts :: "datetime option"

definition initial_state :: demo_state where
  "initial_state =
     \<lparr>benchmark_history = [], rolling_liq = [], rolling_benchmarks = [], last_update_ts = None\<rparr>"

text \<open>
  The dictionary \<open>points_by_ts\<close> is a list of keys with their values, in insertion order and
  with distinct keys; \<open>d.setdefault(k, []).append(v)\<close> appends to the list stored under
  \<open>k\<close>, adding the key at the end when it is new.
\<close>

fun setdefault_append :: "('k \<times> 'v list) list \<Rightarrow> 'k \<Rightarrow> 'v \<Rightarrow> ('k \<times> 'v list) list" where
  "setdefault_append [] k v = [(k, [v])]"
| "setdefault_append ((k', vs) # d) k v =
     (if k' = k then (k', vs @ [v]) # d else (k', vs) # setdefault_append d k v)"

definition group_by_ts :: "VenuePoint list \<Rightarrow> (datetime \<times> VenuePoint list) list" where
  "group_by_ts series = foldl (\<lambda>d p. setdefault_append d (VenuePoint.ts p) p) [] series"

text \<open>One iteration of the loop \<open>for ts in sorted_ts\<close>, at the timestamp \<open>now\<close>.\<close>

definition run_demo_step ::
    "(datetime \<times> VenuePoint list) list \<Rightarrow> demo_state \<Rightarrow> datetime \<Rightarrow> py_error + demo_state" where
  "run_demo_step points_by_ts st now =
     (case map_of points_by_ts now of
        None \<Rightarrow> Inl KeyError
      | Some venue_points \<Rightarrow>
          (let result = compute_liquidity_weighted_benchmark venue_points;
               benchmark_price = fst result;
               total_liq = snd result
           in
               let seeded = (case last_update_ts st of None \<Rightarrow> now | Some u \<Rightarrow> u);
                   staleness_flag = detect_staleness now seeded default_max_staleness_seconds;
                   liqs = rolling_liq st @ [total_liq]
               in (case detect_thin_liquidity total_liq liqs default_quantile_threshold of
                     Inl e \<Rightarrow> Inl e
                   | Inr thin_liq_flag \<Rightarrow>
                       let benchmarks = rolling_benchmarks st @ [benchmark_price]
                       in (case detect_flash_loan_pattern benchmarks default_spike_threshold_pct of
                             Inl e \<Rightarrow> Inl e
                           | Inr flash_flag \<Rightarrow>
                               Inr \<lparr>benchmark_history = benchmark_history st @
                                      [\<lparr>ts = now,
                                        benchmark_price = benchmark_price,
                                        staleness_flag = staleness_flag,
                                        thin_liquidity_flag = thin_liq_flag,
                                        flash_loan_flag = flash_flag\<rparr>],
                                    rolling_liq = liqs,
                                    rolling_benchmarks = benchmarks,
                                    last_update_ts =
                                      Some (if \<not> isnan benchmark_price then now else seeded)\<rparr>))))"

fun run_demo_loop ::
    "(datetime \<times> VenuePoint list) list \<Rightarrow> demo_state \<Rightarrow> datetime list \<Rightarrow> py_error + demo_state" where
  "run_demo_loop points_by_ts st [] = Inr st"
| "run_demo_loop points_by_ts st (now # rest) =
     (case run_demo_step points_by_ts st now of
        Inl e \<Rightarrow> Inl e
      | Inr st' \<Rightarrow> run_demo_loop points_by_ts st' rest)"

text \<open>
  \<open>run_demo\<close> from the grouping of the series to the end of the loop; the series, which the
  source draws from a random generator, is the argument.
\<close>

definition run_demo :: "VenuePoint list \<Rightarrow> py_error + demo_state" where
  "run_demo series =
     (let points_by_ts = group_by_ts series;
          sorted_ts = sort (map fst points_by_ts)
      in run_demo_loop points_by_ts initial_state sorted_ts)"

section \<open>flashloan\_simulator.py\<close>


section \<open>swap\_trace\_decoder.py\<close>

record LogEvent =
  tx_hash :: string
  event_type :: string
  pool :: string
  token_in :: string
  token_out :: string
  amount_in :: real
  amount_out :: real

text \<open>
  \<open>summary\<close> is a \<open>defaultdict\<close> of \<open>defaultdict(float)\<close>: reading a missing pool creates an
  empty inner dictionary, reading a missing key of it creates \<open>0.0\<close>. \<open>dict_add\<close> is
  \<open>summary[key][k] += v\<close>.
\<close>

type_synonym swap_summary = "string \<rightharpoonup> (string \<rightharpoonup> real)"

definition dict_add :: "swap_summary \<Rightarrow> string \<Rightarrow> string \<Rightarrow> real \<Rightarrow> swap_summary" where
  "dict_add summary key k v =
     (let inner = (case summary key of None \<Rightarrow> Map.empty | Some m \<Rightarrow> m);
          old = (case inner k of None \<Rightarrow> 0 | Some x \<Rightarrow> x)
      in summary(key \<mapsto> inner(k \<mapsto> old + v)))"

fun summarize_swaps_loop :: "swap_summary \<Rightarrow> LogEvent list \<Rightarrow> swap_summary" where
  "summarize_swaps_loop summary [] = summary"
| "summarize_swaps_loop summary (e # es) =
     (if event_type e \<noteq> ''SWAP'' then summarize_swaps_loop summary es
      else
        let key = pool e;
            summary1 = dict_add summary key (token_in e @ ''_sold'') (amount_in e);
            summary2 = dict_add summary1 key (token_out e @ ''_bought'') (amount_out e)
        in summarize_swaps_loop summary2 es)"

definition summarize_swaps :: "LogEvent list \<Rightarrow> swap_summary" where
  "summarize_swaps events = summarize_swaps_loop Map.empty events"

text \<open>
  Reading the summary: \<open>summary_entry summary p k\<close> is the value stored under the key
  \<open>k\<close> of the pool \<open>p\<close>, when both are present. \<open>swap_events\<close> are the events of a list
  that the loop does not skip, in their order.
\<close>

definition summary_entry :: "swap_summary \<Rightarrow> string \<Rightarrow> string \<Rightarrow> real option" where
  "summary_entry summary p k = (case summary p of None \<Rightarrow> None | Some inner \<Rightarrow> inner k)"

definition swap_events :: "LogEvent list \<Rightarrow> LogEvent list" where
  "swap_events events = filter (\<lambda>e. event_type e = ''SWAP'') events"

text \<open>
  What one event adds to the entry \<open>k\<close> of the pool \<open>p\<close>: its \<open>amount_in\<close> when \<open>k\<close> is its
  sold key, its \<open>amount_out\<close> when \<open>k\<close> is its bought key.
\<close>

definition flow :: "LogEvent \<Rightarrow> string \<Rightarrow> string \<Rightarrow> real" where
  "flow e p k =
     (if pool e = p \<and> token_in e @ ''_sold'' = k then amount_in e else 0)
     + (if pool e = p \<and> token_out e @ ''_bought'' = k then amount_out e else 0)"

section \<open>Sample inputs\<close>

definition demo_points :: "VenuePoint list" where
  "demo_points =
     [\<lparr>VenuePoint.ts = 0, venue = ''CEX_A'', price = 2000, liquidity = 3\<rparr>,
      \<lparr>VenuePoint.ts = 0, venue = ''DEX_POOL'', price = 2240, liquidity = 1\<rparr>]"

definition drained_points :: "VenuePoint list" where
  "drained_points =
     [\<lparr>VenuePoint.ts = 0, venue = ''CEX_A'', price = 2000, liquidity = 0\<rparr>,
      \<lparr>VenuePoint.ts = 0, venue = ''DEX_POOL'', price = 2240, liquidity = 0\<rparr>]"

definition negative_points :: "VenuePoint list" where
  "negative_points =
     [\<lparr>VenuePoint.ts = 0, venue = ''CEX_A'', price = 2000, liquidity = 5\<rparr>,
      \<lparr>VenuePoint.ts = 0, venue = ''DEX_POOL'', price = 2240, liquidity = - 7\<rparr>]"



text \<open>The events of \<open>get_synthetic_logs\<close>, as \<open>parse_logs\<close> returns them.\<close>

definition synthetic_swaps :: "LogEvent list" where
  "synthetic_swaps =
     [\<lparr>tx_hash = ''0xabc1'', event_type = ''SWAP'', pool = ''POOL_ETH_USDC'',
       token_in = ''ETH'', token_out = ''USDC'', amount_in = 1.2, amount_out = 2400\<rparr>,
      \<lparr>tx_hash = ''0xabc2'', event_type = ''SWAP'', pool = ''POOL_ETH_USDC'',
       token_in = ''USDC'', token_out = ''ETH'', amount_in = 5000, amount_out = 2.45\<rparr>,
      \<lparr>tx_hash = ''0xabc3'', event_type = ''SWAP'', pool = ''POOL_WBTC_USDC'',
       token_in = ''WBTC'', token_out = ''USDC'', amount_in = 0.3, amount_out = 18000\<rparr>]"

definition synthetic_transfer :: LogEvent where
  "synthetic_transfer =
     \<lparr>tx_hash = ''0xabc4'', event_type = ''TRANSFER'', pool = ''POOL_ETH_USDC'',
      token_in = ''ETH'', token_out = ''ETH'', amount_in = 0.5, amount_out = 0.5\<rparr>"

definition synthetic_events :: "LogEvent list" where
  "synthetic_events = synthetic_swaps @ [synthetic_transfer]"



definition drained_series :: "VenuePoint list" where
  "drained_series =
     [\<lparr>VenuePoint.ts = 0, venue = ''CEX_A'', price = 2000, liquidity = 0\<rparr>,
      \<lparr>VenuePoint.ts = seconds 10, venue = ''CEX_A'', price = 2010, liquidity = 0\<rparr>]"

definition drained_result :: demo_state where
  "drained_result =
     \<lparr>benchmark_history =
        [\<lparr>ts = 0, benchmark_price = NaN, staleness_flag = False,
          thin_liquidity_flag = False, flash_loan_flag = False\<rparr>,
         \<lparr>ts = seconds 10, benchmark_price = NaN, staleness_flag = False,
          thin_liquidity_flag = False, flash_loan_flag = False\<rparr>],
      rolling_liq = [0, 0],
      rolling_benchmarks = [NaN, NaN],
      last_update_ts = Some 0\<rparr>"

definition mixed_series :: "VenuePoint list" where
  "mixed_series =
     [\<lparr>VenuePoint.ts = 0, venue = ''CEX_A'', price = 2000, liquidity = 0\<rparr>,
      \<lparr>VenuePoint.ts = seconds 10, venue = ''CEX_A'', price = 2010, liquidity = 3\<rparr>,
      \<lparr>VenuePoint.ts = seconds 20, venue = ''CEX_A'', price = 2020, liquidity = 0\<rparr>]"

definition mixed_first :: demo_state where
  "mixed_first =
     \<lparr>benchmark_history =
        [\<lparr>ts = 0, benchmark_price = NaN, staleness_flag = False,
          thin_liquidity_flag = False, flash_loan_flag = False\<rparr>],
      rolling_liq = [0],
      rolling_benchmarks = [NaN],
      last_update_ts = Some 0\<rparr>"

definition mixed_result :: demo_state where
  "mixed_result =
     \<lparr>benchmark_history =
        [\<lparr>ts = 0, benchmark_price = NaN, staleness_flag = False,
          thin_liquidity_flag = False, flash_loan_flag = False\<rparr>,
         \<lparr>ts = seconds 10, benchmark_price = Fin 2010, staleness_flag = False,
          thin_liquidity_flag = False, flash_loan_flag = False\<rparr>,
         \<lparr>ts = seconds 20, benchmark_price = NaN, staleness_flag = False,
          thin_liquidity_flag = False, flash_loan_flag = False\<rparr>],
      rolling_liq = [0, 3, 0],
      rolling_benchmarks = [NaN, Fin 2010, NaN],
      last_update_ts = Some (seconds 10)\<rparr>"

section \<open>Properties of the detectors\<close>



lemma last_three: "drop (length (pre @ [b0, b1, b2]) - 3) (pre @ [b0, b1, b2]) = [b0, b1, b2]"
  by simp

lemma flash_short:
  "length bs < 3 \<Longrightarrow> detect_flash_loan_pattern bs thr = Inr False"
  by (simp add: detect_flash_loan_pattern_def)

lemma flash_nan:
  "isnan b0 \<or> isnan b1 \<or> isnan b2 \<Longrightarrow>
     detect_flash_loan_pattern (pre @ [b0, b1, b2]) thr = Inr False"
  unfolding detect_flash_loan_pattern_def last_three by simp

lemma flash_numbers:
  "x0 \<noteq> 0 \<Longrightarrow>
     detect_flash_loan_pattern (pre @ [Fin x0, Fin x1, Fin x2]) thr =
       Inr (if float_lt (Fin ((x2 - x0) / x0 * 100)) thr then False
            else \<bar>x1 - x0\<bar> < \<bar>x2 - x0\<bar>)"
  unfolding detect_flash_loan_pattern_def last_three by (simp add: Let_def)


lemma last_three_split:
  assumes "3 \<le> length bs"
  shows "\<exists>pre b0 b1 b2. bs = pre @ [b0, b1, b2]"
proof -
  define r where "r = rev bs"
  from assms have "Suc (Suc (Suc 0)) \<le> length r"
    by (simp add: r_def)
  then obtain b2 b1 b0 r0 where "r = b2 # b1 # b0 # r0"
    by (auto simp: Suc_le_length_iff)
  then have "rev r = rev r0 @ [b0, b1, b2]" by simp
  then show ?thesis by (auto simp: r_def)
qed

lemma flash_total:
  assumes "Fin 0 \<notin> set bs"
  shows "\<exists>flag. detect_flash_loan_pattern bs thr = Inr flag"
proof (cases "length bs < 3")
  case True
  then show ?thesis by (auto simp: flash_short)
next
  case False
  then obtain pre b0 b1 b2 where bs: "bs = pre @ [b0, b1, b2]"
    using last_three_split [of bs] by auto
  show ?thesis
  proof (cases "isnan b0 \<or> isnan b1 \<or> isnan b2")
    case True
    then show ?thesis unfolding bs by (auto simp: flash_nan)
  next
    case False
    then obtain x0 x1 x2 where x: "b0 = Fin x0" "b1 = Fin x1" "b2 = Fin x2"
      by (cases b0; cases b1; cases b2) auto
    with assms bs have "x0 \<noteq> 0" by auto
    then show ?thesis unfolding bs x by (auto simp: flash_numbers)
  qed
qed


lemma flash_after_nan:
  "detect_flash_loan_pattern (bs @ [NaN]) thr = Inr False"
proof (cases "length (bs @ [NaN]) < 3")
  case True
  then show ?thesis by (rule flash_short)
next
  case False
  then obtain pre b0 b1 b2 where split: "bs @ [NaN] = pre @ [b0, b1, b2]"
    using last_three_split [of "bs @ [NaN]"] by auto
  then have "last (bs @ [NaN]) = last (pre @ [b0, b1, b2])" by simp
  then have "b2 = NaN" by simp
  then show ?thesis unfolding split by (simp add: flash_nan)
qed




section \<open>Properties of the aggregator\<close>

lemma sum_list_weights:
  assumes "sum_list liqs \<noteq> 0"
  shows "sum_list (venue_weights liqs) = 1"
proof -
  have "sum_list (map (\<lambda>l. l / c) xs) = sum_list xs / c" for c :: real and xs
    by (induction xs) (simp_all add: add_divide_distrib)
  then show ?thesis using assms by (simp add: venue_weights_def)
qed



lemma weighted_lower:
  fixes ws ps :: "real list"
  assumes "length ws = length ps" "\<forall>w\<in>set ws. 0 \<le> w" "\<forall>p\<in>set ps. m \<le> p"
  shows "m * sum_list ws \<le> sum_list (map2 (*) ws ps)"
  using assms
proof (induction ws ps rule: list_induct2)
  case Nil
  then show ?case by simp
next
  case (Cons w ws p ps)
  have "m * w \<le> w * p" using Cons.prems by (simp add: mult_right_mono mult.commute)
  moreover have "m * sum_list ws \<le> sum_list (map2 (*) ws ps)" using Cons by simp
  ultimately show ?case by (simp add: algebra_simps)
qed

lemma weighted_upper:
  fixes ws ps :: "real list"
  assumes "length ws = length ps" "\<forall>w\<in>set ws. 0 \<le> w" "\<forall>p\<in>set ps. p \<le> m"
  shows "sum_list (map2 (*) ws ps) \<le> m * sum_list ws"
  using assms
proof (induction ws ps rule: list_induct2)
  case Nil
  then show ?case by simp
next
  case (Cons w ws p ps)
  have "w * p \<le> m * w" using Cons.prems by (simp add: mult_right_mono mult.commute)
  moreover have "sum_list (map2 (*) ws ps) \<le> m * sum_list ws" using Cons by simp
  ultimately show ?case by (simp add: algebra_simps)
qed


lemma benchmark_value:
  assumes "0 < sum_list (map liquidity points)"
  shows "compute_liquidity_weighted_benchmark points =
           (Fin (sum_list (map2 (*) (venue_weights (map liquidity points)) (map price points))),
            sum_list (map liquidity points))"
  using assms by (simp add: compute_liquidity_weighted_benchmark_def Let_def)

lemma benchmark_between:
  assumes pos: "0 < sum_list (map liquidity points)"
      and nonneg: "\<forall>p\<in>set points. 0 \<le> liquidity p"
      and lo: "\<forall>p\<in>set points. lo \<le> price p"
      and hi: "\<forall>p\<in>set points. price p \<le> hi"
  shows "lo \<le> sum_list (map2 (*) (venue_weights (map liquidity points)) (map price points))"
    and "sum_list (map2 (*) (venue_weights (map liquidity points)) (map price points)) \<le> hi"
proof -
  let ?ws = "venue_weights (map liquidity points)"
  let ?ps = "map price points"
  have len: "length ?ws = length ?ps" by (simp add: venue_weights_def)
  have w0: "\<forall>w\<in>set ?ws. 0 \<le> w"
    using pos nonneg by (auto simp: venue_weights_def)
  have one: "sum_list ?ws = 1" using pos by (simp add: sum_list_weights)
  have "lo * sum_list ?ws \<le> sum_list (map2 (*) ?ws ?ps)"
    using len w0 lo by (intro weighted_lower) auto
  then show "lo \<le> sum_list (map2 (*) ?ws ?ps)" using one by simp
  have "sum_list (map2 (*) ?ws ?ps) \<le> hi * sum_list ?ws"
    using len w0 hi by (intro weighted_upper) auto
  then show "sum_list (map2 (*) ?ws ?ps) \<le> hi" using one by simp
qed

text \<open>
  Claim C4. When the liquidities of an observation set sum to zero or less, and so for the
  empty set, the aggregator returns the sentinel NaN with total liquidity 0 and performs no
  division at all. Every division it performs in any call has a strictly positive
  denominator.
\<close>

theorem benchmark_sentinel:
  "compute_liquidity_weighted_benchmark points = fst (benchmark_divisions points)
   \<and> (sum_list (map liquidity points) \<le> 0 \<longrightarrow>
        benchmark_divisions points = ((NaN, 0), []))
   \<and> benchmark_divisions [] = ((NaN, 0), [])
   \<and> (\<forall>d\<in>set (snd (benchmark_divisions points)). 0 < d)"
  by (simp add: compute_liquidity_weighted_benchmark_def benchmark_divisions_def
      venue_weights_def Let_def)

theorem benchmark_sentinel_witness:
  "benchmark_divisions drained_points = ((NaN, 0), [])
   \<and> benchmark_divisions negative_points = ((NaN, 0), [])
   \<and> benchmark_divisions demo_points = ((Fin 2060, 4), [4, 4])"
  using benchmark_sentinel [of drained_points] benchmark_sentinel [of negative_points]
    benchmark_sentinel [of demo_points]
  by (simp add: drained_points_def negative_points_def demo_points_def
      benchmark_divisions_def)



lemma benchmark_nonzero:
  assumes "\<forall>p\<in>set pts. 0 < price p \<and> 0 \<le> liquidity p"
  shows "fst (compute_liquidity_weighted_benchmark pts) \<noteq> Fin 0"
proof (cases "sum_list (map liquidity pts) \<le> 0")
  case True
  then show ?thesis by (simp add: compute_liquidity_weighted_benchmark_def)
next
  case False
  then have pos: "0 < sum_list (map liquidity pts)" by simp
  then have ne: "pts \<noteq> []" by auto
  have nonneg: "\<forall>p\<in>set pts. 0 \<le> liquidity p" using assms by simp
  have fin: "finite (price ` set pts)" "price ` set pts \<noteq> {}" using ne by auto
  have lo: "\<forall>p\<in>set pts. Min (price ` set pts) \<le> price p" using fin by auto
  have hi: "\<forall>p\<in>set pts. price p \<le> Max (price ` set pts)" using fin by auto
  have "Min (price ` set pts) \<in> price ` set pts" using fin by (rule Min_in)
  then have "0 < Min (price ` set pts)" using assms by auto
  with benchmark_between(1) [OF pos nonneg lo hi] benchmark_value [OF pos]
  show ?thesis by simp
qed

section \<open>Properties of the thin-liquidity detector\<close>

lemma np_quantile_bounds:
  assumes ne: "a \<noteq> []" and q: "0 \<le> q" "q \<le> 1"
  shows "\<exists>v. np_quantile a q = Inr v \<and> Min (set a) \<le> v \<and> v \<le> Max (set a)"
proof -
  define arr where "arr = sort a"
  define n where "n = length arr"
  define h where "h = real (n - 1) * q"
  define j where "j = nat \<lfloor>h\<rfloor>"
  define k where "k = min (j + 1) (n - 1)"
  define g where "g = h - real j"
  have n_pos: "0 < n" using ne by (simp add: n_def arr_def)
  have h0: "0 \<le> h" using q by (simp add: h_def)
  have h1: "h \<le> real (n - 1)" using q by (simp add: h_def mult_left_le)
  have j_le_h: "real j \<le> h" using h0 by (simp add: j_def)
  have "j \<le> n - 1" using j_le_h h1 by linarith
  then have jk: "j \<le> k" and kn: "k < n" and jn: "j < n"
    using n_pos by (auto simp: k_def)
  have g0: "0 \<le> g" using j_le_h by (simp add: g_def)
  have "h < real j + 1" using h0 unfolding j_def by linarith
  then have g1: "g \<le> 1" by (simp add: g_def)
  have srt: "sorted arr" by (simp add: arr_def)
  have le: "arr ! j \<le> arr ! k"
    using srt jk kn by (simp add: sorted_nth_mono n_def)
  have "arr ! j \<in> set arr" "arr ! k \<in> set arr"
    using jn kn by (simp_all add: n_def)
  then have mem: "arr ! j \<in> set a" "arr ! k \<in> set a"
    by (simp_all add: arr_def)
  have fin: "finite (set a)" by simp
  define v where "v = arr ! j + (arr ! k - arr ! j) * g"
  have "arr ! j \<le> v"
    using le g0 by (simp add: v_def)
  moreover have "v \<le> arr ! k"
  proof -
    have "(arr ! k - arr ! j) * g \<le> (arr ! k - arr ! j) * 1"
      using le g1 by (intro mult_left_mono) auto
    then show ?thesis by (simp add: v_def)
  qed
  moreover have "Min (set a) \<le> arr ! j" using mem fin by simp
  moreover have "arr ! k \<le> Max (set a)" using mem fin by simp
  moreover have "np_quantile a q = Inr v"
    using ne q
    by (simp add: np_quantile_def Let_def v_def g_def k_def j_def h_def n_def arr_def)
  ultimately show ?thesis by fastforce
qed


lemma thin_total:
  "\<exists>flag. detect_thin_liquidity x xs default_quantile_threshold = Inr flag"
proof (cases "length xs < 10")
  case True
  then show ?thesis by (auto simp: detect_thin_liquidity_def)
next
  case False
  then have "xs \<noteq> []" by auto
  from np_quantile_bounds [OF this, of default_quantile_threshold]
  obtain v where "np_quantile xs default_quantile_threshold = Inr v"
    by (auto simp: default_quantile_threshold_def)
  then show ?thesis by (auto simp: detect_thin_liquidity_def)
qed



section \<open>Properties of the orchestrator\<close>

subsection \<open>One step and the loop\<close>

lemma initial_state_fields:
  "benchmark_history initial_state = []" "rolling_liq initial_state = []"
  "rolling_benchmarks initial_state = []" "last_update_ts initial_state = None"
  by (simp_all add: initial_state_def)

lemma run_demo_unfold:
  "run_demo series =
     run_demo_loop (group_by_ts series) initial_state (sort (map fst (group_by_ts series)))"
  by (simp add: run_demo_def Let_def)

lemma run_demo_step_Inr:
  assumes "run_demo_step d st now = Inr st'"
  obtains pts thin flash where
    "map_of d now = Some pts"
    "detect_thin_liquidity (snd (compute_liquidity_weighted_benchmark pts))
       (rolling_liq st @ [snd (compute_liquidity_weighted_benchmark pts)])
       default_quantile_threshold = Inr thin"
    "detect_flash_loan_pattern
       (rolling_benchmarks st @ [fst (compute_liquidity_weighted_benchmark pts)])
       default_spike_threshold_pct = Inr flash"
    "benchmark_history st' = benchmark_history st @
       [\<lparr>ts = now,
         benchmark_price = fst (compute_liquidity_weighted_benchmark pts),
         staleness_flag =
           detect_staleness now (case last_update_ts st of None \<Rightarrow> now | Some u \<Rightarrow> u)
             default_max_staleness_seconds,
         thin_liquidity_flag = thin,
         flash_loan_flag = flash\<rparr>]"
    "rolling_liq st' = rolling_liq st @ [snd (compute_liquidity_weighted_benchmark pts)]"
    "rolling_benchmarks st' =
       rolling_benchmarks st @ [fst (compute_liquidity_weighted_benchmark pts)]"
    "last_update_ts st' =
       Some (if \<not> isnan (fst (compute_liquidity_weighted_benchmark pts)) then now
             else (case last_update_ts st of None \<Rightarrow> now | Some u \<Rightarrow> u))"
  using assms unfolding run_demo_step_def Let_def
  by (auto split: option.splits sum.splits)

lemma step_lengths:
  assumes "run_demo_step d st now = Inr st'"
  shows "length (rolling_liq st') = Suc (length (rolling_liq st))"
    and "length (rolling_benchmarks st') = Suc (length (rolling_benchmarks st))"
    and "length (benchmark_history st') = Suc (length (benchmark_history st))"
  using assms by (auto elim!: run_demo_step_Inr)

lemma loop_lengths:
  assumes "run_demo_loop d st tss = Inr st'"
  shows "length (rolling_liq st') = length (rolling_liq st) + length tss
       \<and> length (rolling_benchmarks st') = length (rolling_benchmarks st) + length tss"
  using assms
proof (induction tss arbitrary: st)
  case Nil
  then show ?case by simp
next
  case (Cons now rest)
  from Cons.prems obtain st1 where
    s1: "run_demo_step d st now = Inr st1" and l1: "run_demo_loop d st1 rest = Inr st'"
    by (auto split: sum.splits)
  from Cons.IH [OF l1] step_lengths [OF s1] show ?case by simp
qed

lemma step_sentinel:
  assumes "map_of d now = Some pts" and "sum_list (map liquidity pts) \<le> 0"
  shows "\<exists>st'. run_demo_step d st now = Inr st'
           \<and> rolling_liq st' = rolling_liq st @ [0]
           \<and> rolling_benchmarks st' = rolling_benchmarks st @ [NaN]"
proof -
  have c: "compute_liquidity_weighted_benchmark pts = (NaN, 0)"
    using assms(2) by (simp add: compute_liquidity_weighted_benchmark_def)
  obtain thin where
    t: "detect_thin_liquidity 0 (rolling_liq st @ [0]) default_quantile_threshold = Inr thin"
    using thin_total by blast
  show ?thesis
    using assms(1) c t by (simp add: run_demo_step_def flash_after_nan Let_def)
qed



lemma step_total:
  assumes "map_of d now = Some pts"
    and "fst (compute_liquidity_weighted_benchmark pts) \<noteq> Fin 0"
    and "Fin 0 \<notin> set (rolling_benchmarks st)"
  shows "\<exists>st'. run_demo_step d st now = Inr st' \<and> Fin 0 \<notin> set (rolling_benchmarks st')"
proof -
  let ?b = "fst (compute_liquidity_weighted_benchmark pts)"
  let ?l = "snd (compute_liquidity_weighted_benchmark pts)"
  obtain thin where
    t: "detect_thin_liquidity ?l (rolling_liq st @ [?l]) default_quantile_threshold = Inr thin"
    using thin_total by blast
  have "Fin 0 \<notin> set (rolling_benchmarks st @ [?b])"
    using assms(2,3) by auto
  from flash_total [OF this] obtain flash where
    f: "detect_flash_loan_pattern (rolling_benchmarks st @ [?b]) default_spike_threshold_pct
          = Inr flash"
    by blast
  show ?thesis
    using assms t f by (simp add: run_demo_step_def Let_def)
qed

lemma loop_total:
  assumes "\<forall>t\<in>set tss. \<exists>pts. map_of d t = Some pts
             \<and> fst (compute_liquidity_weighted_benchmark pts) \<noteq> Fin 0"
    and "Fin 0 \<notin> set (rolling_benchmarks st)"
  shows "\<exists>st'. run_demo_loop d st tss = Inr st'"
  using assms
proof (induction tss arbitrary: st)
  case Nil
  then show ?case by simp
next
  case (Cons now rest)
  from Cons.prems(1) obtain pts where
    pts: "map_of d now = Some pts" "fst (compute_liquidity_weighted_benchmark pts) \<noteq> Fin 0"
    by auto
  from step_total [OF pts Cons.prems(2)] obtain st1 where
    s1: "run_demo_step d st now = Inr st1" "Fin 0 \<notin> set (rolling_benchmarks st1)"
    by blast
  from Cons.prems(1) have "\<forall>t\<in>set rest. \<exists>pts. map_of d t = Some pts
             \<and> fst (compute_liquidity_weighted_benchmark pts) \<noteq> Fin 0"
    by simp
  from Cons.IH [OF this s1(2)] s1(1) show ?case by simp
qed



lemma loop_last_update:
  assumes "run_demo_loop d st tss = Inr st'" and "last_update_ts st = Some u0"
  shows "\<exists>u. last_update_ts st' = Some u
           \<and> (u = u0 \<or> (u \<in> set tss \<and> (\<exists>pts. map_of d u = Some pts
                 \<and> \<not> isnan (fst (compute_liquidity_weighted_benchmark pts)))))"
  using assms
proof (induction tss arbitrary: st u0)
  case Nil
  then show ?case by simp
next
  case (Cons now rest)
  from Cons.prems(1) obtain st1 where
    s1: "run_demo_step d st now = Inr st1" and l1: "run_demo_loop d st1 rest = Inr st'"
    by (auto split: sum.splits)
  from s1 obtain pts where pts: "map_of d now = Some pts"
    and lu: "last_update_ts st1 =
       Some (if \<not> isnan (fst (compute_liquidity_weighted_benchmark pts)) then now
             else (case last_update_ts st of None \<Rightarrow> now | Some u \<Rightarrow> u))"
    by (auto elim!: run_demo_step_Inr)
  show ?case
  proof (cases "isnan (fst (compute_liquidity_weighted_benchmark pts))")
    case True
    with lu Cons.prems(2) have "last_update_ts st1 = Some u0" by simp
    from Cons.IH [OF l1 this] show ?thesis by auto
  next
    case False
    with lu have "last_update_ts st1 = Some now" by simp
    from Cons.IH [OF l1 this] pts False show ?thesis by auto
  qed
qed

lemma run_last_update:
  assumes "run_demo_loop d initial_state tss = Inr st'"
  shows "case last_update_ts st' of
           None \<Rightarrow> tss = []
         | Some u \<Rightarrow> u \<in> set tss \<and> (u = hd tss \<or> (\<exists>pts. map_of d u = Some pts
                 \<and> \<not> isnan (fst (compute_liquidity_weighted_benchmark pts))))"
proof (cases tss)
  case Nil
  with assms show ?thesis by (auto simp: initial_state_def)
next
  case (Cons now rest)
  with assms obtain st1 where
    s1: "run_demo_step d initial_state now = Inr st1"
    and l1: "run_demo_loop d st1 rest = Inr st'"
    by (auto split: sum.splits)
  from s1 have "last_update_ts st1 = Some now"
    by (auto elim!: run_demo_step_Inr simp: initial_state_def)
  from loop_last_update [OF l1 this] Cons show ?thesis by auto
qed

subsection \<open>Grouping by timestamp\<close>

lemma keys_setdefault_append:
  "map fst (setdefault_append d k v) = (if k \<in> set (map fst d) then map fst d else map fst d @ [k])"
  by (induction d k v rule: setdefault_append.induct) auto

lemma map_of_setdefault_append:
  "map_of (setdefault_append d k v) =
     (map_of d)(k \<mapsto> (case map_of d k of None \<Rightarrow> [] | Some vs \<Rightarrow> vs) @ [v])"
  by (induction d k v rule: setdefault_append.induct) (auto simp: fun_eq_iff)

lemma group_by_ts_snoc:
  "group_by_ts (series @ [p]) = setdefault_append (group_by_ts series) (VenuePoint.ts p) p"
  by (simp add: group_by_ts_def)

lemma keys_group_by_ts:
  "distinct (map fst (group_by_ts series))
   \<and> set (map fst (group_by_ts series)) = VenuePoint.ts ` set series"
proof (induction series rule: rev_induct)
  case Nil
  then show ?case by (simp add: group_by_ts_def)
next
  case (snoc p series)
  then show ?case
    unfolding group_by_ts_snoc keys_setdefault_append by auto
qed

lemma map_of_group_by_ts:
  "map_of (group_by_ts series) t =
     (if t \<in> VenuePoint.ts ` set series
      then Some (filter (\<lambda>p. VenuePoint.ts p = t) series) else None)"
proof (induction series arbitrary: t rule: rev_induct)
  case Nil
  then show ?case by (simp add: group_by_ts_def)
next
  case (snoc p series)
  have none: "filter (\<lambda>q. VenuePoint.ts q = VenuePoint.ts p) series = []"
    if "VenuePoint.ts p \<notin> VenuePoint.ts ` set series"
    using that by (force simp: filter_empty_conv image_iff)
  show ?case
    unfolding group_by_ts_snoc map_of_setdefault_append snoc.IH
    by (auto simp: none)
qed

lemma sorted_keys_group_by_ts:
  "sort (map fst (group_by_ts series)) = sorted_list_of_set (VenuePoint.ts ` set series)"
proof -
  have "sorted_list_of_set (set (map fst (group_by_ts series)))
          = sort (remdups (map fst (group_by_ts series)))"
    by (rule sorted_list_of_set_sort_remdups)
  then show ?thesis
    using keys_group_by_ts [of series] by (simp add: distinct_remdups_id)
qed

lemma sorted_ts_group_by_ts:
  "sort (map fst (group_by_ts series)) = sort (remdups (map VenuePoint.ts series))"
proof -
  have "sort (remdups (map VenuePoint.ts series))
          = sorted_list_of_set (set (map VenuePoint.ts series))"
    by (rule sorted_list_of_set_sort_remdups [symmetric])
  then show ?thesis by (simp add: sorted_keys_group_by_ts)
qed

subsection \<open>The sample series\<close>

lemmas run_demo_eval =
  initial_state_def seconds_def run_demo_step_def
  compute_liquidity_weighted_benchmark_def venue_weights_def detect_staleness_def
  detect_thin_liquidity_def detect_flash_loan_pattern_def total_seconds_def
  default_max_staleness_seconds_def Let_def



lemma group_drained:
  "group_by_ts drained_series = [(0, [drained_series ! 0]), (seconds 10, [drained_series ! 1])]"
  by (simp add: group_by_ts_def drained_series_def seconds_def)

lemma run_drained: "run_demo drained_series = Inr drained_result"
  unfolding run_demo_def group_drained
  by (simp add: drained_series_def drained_result_def run_demo_eval)

lemma group_mixed:
  "group_by_ts mixed_series =
     [(0, [mixed_series ! 0]), (seconds 10, [mixed_series ! 1]), (seconds 20, [mixed_series ! 2])]"
  by (simp add: group_by_ts_def mixed_series_def seconds_def)

lemma step_mixed:
  "run_demo_step (group_by_ts mixed_series) initial_state 0 = Inr mixed_first"
  unfolding group_mixed
  by (simp add: mixed_series_def mixed_first_def run_demo_eval)

lemma loop_mixed:
  "run_demo_loop (group_by_ts mixed_series) initial_state [0, seconds 10, seconds 20]
     = Inr mixed_result"
  unfolding group_mixed
  by (simp add: mixed_series_def mixed_result_def run_demo_eval)

lemma run_mixed: "run_demo mixed_series = Inr mixed_result"
  unfolding run_demo_def group_mixed
  by (simp add: mixed_series_def mixed_result_def run_demo_eval)

subsection \<open>The histories\<close>

text \<open>
  Claim C8. A step of the loop that completes appends exactly one element to the liquidity
  history and one to the benchmark history; a step whose group has no positive total
  liquidity always completes and appends 0 and NaN. After any number of steps from the
  initial state both histories have as many elements as timestamps were processed, hence
  equal length, and so at the end of \<open>run_demo\<close>.
\<close>

theorem histories_grow_together:
  "(run_demo_step d st now = Inr st1 \<longrightarrow>
      length (rolling_liq st1) = Suc (length (rolling_liq st))
      \<and> length (rolling_benchmarks st1) = Suc (length (rolling_benchmarks st)))
   \<and> (map_of d now = Some pts \<and> sum_list (map liquidity pts) \<le> 0 \<longrightarrow>
        (\<exists>st2. run_demo_step d st now = Inr st2
           \<and> rolling_liq st2 = rolling_liq st @ [0]
           \<and> rolling_benchmarks st2 = rolling_benchmarks st @ [NaN]))
   \<and> (run_demo_loop d initial_state tss = Inr st3 \<longrightarrow>
        length (rolling_liq st3) = length tss
        \<and> length (rolling_benchmarks st3) = length tss
        \<and> length (rolling_liq st3) = length (rolling_benchmarks st3))
   \<and> (run_demo series = Inr st4 \<longrightarrow>
        length (rolling_liq st4) = length (rolling_benchmarks st4))"
proof -
  have run: "length (rolling_liq st4) = length (rolling_benchmarks st4)"
    if "run_demo series = Inr st4"
    using that loop_lengths [of "group_by_ts series" initial_state _ st4]
    by (simp add: run_demo_unfold initial_state_fields)
  show ?thesis
    using step_lengths [of d st now st1] step_sentinel [of d now pts st]
      loop_lengths [of d initial_state tss st3] run
    by (simp add: initial_state_fields)
qed

theorem histories_grow_together_witness:
  "run_demo_step (group_by_ts mixed_series) initial_state 0 = Inr mixed_first
   \<and> rolling_liq mixed_first = [0] \<and> rolling_benchmarks mixed_first = [NaN]
   \<and> run_demo_loop (group_by_ts mixed_series) initial_state [0, seconds 10, seconds 20]
       = Inr mixed_result
   \<and> length (rolling_liq mixed_result) = 3 \<and> length (rolling_benchmarks mixed_result) = 3
   \<and> run_demo mixed_series = Inr mixed_result"
proof -
  have pts: "map_of (group_by_ts mixed_series) 0 = Some [mixed_series ! 0]"
    "sum_list (map liquidity [mixed_series ! 0]) \<le> 0"
    by (simp_all add: group_mixed) (simp add: mixed_series_def)
  from histories_grow_together
         [of "group_by_ts mixed_series" initial_state 0 mixed_first "[mixed_series ! 0]"
             "[0, seconds 10, seconds 20]" mixed_result mixed_series mixed_result]
       pts step_mixed loop_mixed run_mixed
  show ?thesis by (simp add: initial_state_def)
qed

subsection \<open>The last update\<close>

lemma hd_sorted_ts:
  assumes "series \<noteq> []"
  shows "hd (sort (remdups (map VenuePoint.ts series))) = Min (VenuePoint.ts ` set series)"
proof -
  have "sort (remdups (map VenuePoint.ts series))
          = sorted_list_of_set (VenuePoint.ts ` set series)"
    using sorted_list_of_set_sort_remdups [of "map VenuePoint.ts series"] by simp
  moreover have "finite (VenuePoint.ts ` set series)" "VenuePoint.ts ` set series \<noteq> {}"
    using assms by simp_all
  ultimately show ?thesis
    by (simp add: sorted_list_of_set_nonempty)
qed

lemma run_demo_last_update:
  assumes "run_demo series = Inr st"
  shows "case last_update_ts st of
           None \<Rightarrow> series = []
         | Some u \<Rightarrow> u \<in> VenuePoint.ts ` set series
             \<and> (u = Min (VenuePoint.ts ` set series)
                \<or> \<not> isnan (fst (compute_liquidity_weighted_benchmark
                            (filter (\<lambda>p. VenuePoint.ts p = u) series))))"
proof -
  define tss where "tss = sort (remdups (map VenuePoint.ts series))"
  have set_tss: "set tss = VenuePoint.ts ` set series"
    by (simp add: tss_def)
  have empty: "tss = [] \<longleftrightarrow> series = []"
    using set_tss by (metis image_is_empty set_empty)
  have loop: "run_demo_loop (group_by_ts series) initial_state tss = Inr st"
    using assms by (simp add: run_demo_unfold sorted_ts_group_by_ts tss_def)
  note inv = run_last_update [OF loop]
  show ?thesis
  proof (cases "last_update_ts st")
    case None
    with inv empty show ?thesis by simp
  next
    case (Some u)
    with inv have u: "u \<in> set tss"
      and alt: "u = hd tss \<or> (\<exists>pts. map_of (group_by_ts series) u = Some pts
                 \<and> \<not> isnan (fst (compute_liquidity_weighted_benchmark pts)))"
      by simp_all
    from u have ne: "series \<noteq> []" using empty by auto
    from u have grp: "map_of (group_by_ts series) u
        = Some (filter (\<lambda>p. VenuePoint.ts p = u) series)"
      by (simp add: set_tss map_of_group_by_ts)
    from alt grp hd_sorted_ts [OF ne] have
      "u = Min (VenuePoint.ts ` set series)
       \<or> \<not> isnan (fst (compute_liquidity_weighted_benchmark
                            (filter (\<lambda>p. VenuePoint.ts p = u) series)))"
      by (auto simp: tss_def)
    with Some u set_tss show ?thesis by simp
  qed
qed

text \<open>
  Claim C2 as stated: \<open>last_update_ts\<close> is never the timestamp of a step whose benchmark
  was NaN. The first step seeds it with its own timestamp before the benchmark is looked
  at: on a series whose groups have no liquidity it is the first timestamp, whose benchmark
  is NaN.
\<close>

theorem last_update_ts_set_on_sentinel:
  "run_demo drained_series = Inr drained_result
   \<and> last_update_ts drained_result = Some 0
   \<and> map BenchmarkPoint.ts (benchmark_history drained_result) = [0, seconds 10]
   \<and> map benchmark_price (benchmark_history drained_result) = [NaN, NaN]
   \<and> compute_liquidity_weighted_benchmark (filter (\<lambda>p. VenuePoint.ts p = 0) drained_series)
       = (NaN, 0)"
  using run_drained
  by (simp add: drained_result_def drained_series_def seconds_def
      compute_liquidity_weighted_benchmark_def)

text \<open>
  Claim C2, amended. A step sets \<open>last_update_ts\<close> to its own timestamp when its benchmark
  is not NaN; when it is NaN it keeps the previous value, or seeds the value with its own
  timestamp when there was none. Hence after any number of steps from the initial state
  \<open>last_update_ts\<close> is a processed timestamp that is either the first one processed (the
  seed) or one whose aggregated benchmark was not NaN; at the end of \<open>run_demo\<close> it is
  the earliest timestamp of the series or a timestamp whose group has a benchmark that is
  not NaN.
\<close>

theorem last_update_ts_valid_or_seed:
  "(run_demo_step d st now = Inr st1 \<longrightarrow>
      (\<exists>pts. map_of d now = Some pts
         \<and> last_update_ts st1 =
             (if \<not> isnan (fst (compute_liquidity_weighted_benchmark pts)) then Some now
              else (case last_update_ts st of None \<Rightarrow> Some now | Some u \<Rightarrow> Some u))))
   \<and> (run_demo_loop d initial_state tss = Inr st2 \<longrightarrow>
        (case last_update_ts st2 of
           None \<Rightarrow> tss = []
         | Some u \<Rightarrow> u \<in> set tss \<and> (u = hd tss \<or> (\<exists>pts. map_of d u = Some pts
                 \<and> \<not> isnan (fst (compute_liquidity_weighted_benchmark pts))))))
   \<and> (run_demo series = Inr st3 \<longrightarrow>
        (case last_update_ts st3 of
           None \<Rightarrow> series = []
         | Some u \<Rightarrow> u \<in> VenuePoint.ts ` set series
             \<and> (u = Min (VenuePoint.ts ` set series)
                \<or> \<not> isnan (fst (compute_liquidity_weighted_benchmark
                            (filter (\<lambda>p. VenuePoint.ts p = u) series))))))"
proof -
  have step: "\<exists>pts. map_of d now = Some pts
         \<and> last_update_ts st1 =
             (if \<not> isnan (fst (compute_liquidity_weighted_benchmark pts)) then Some now
              else (case last_update_ts st of None \<Rightarrow> Some now | Some u \<Rightarrow> Some u))"
    if "run_demo_step d st now = Inr st1"
    using that by (auto elim!: run_demo_step_Inr split: option.splits)
  from step run_last_update [of d tss st2] run_demo_last_update [of series st3]
  show ?thesis by blast
qed

theorem last_update_ts_valid_or_seed_witness:
  "run_demo_step (group_by_ts mixed_series) initial_state 0 = Inr mixed_first
   \<and> last_update_ts mixed_first = Some 0
   \<and> run_demo_loop (group_by_ts mixed_series) initial_state [0, seconds 10, seconds 20]
       = Inr mixed_result
   \<and> run_demo mixed_series = Inr mixed_result
   \<and> last_update_ts mixed_result = Some (seconds 10)
   \<and> map_of (group_by_ts mixed_series) (seconds 10) = Some [mixed_series ! 1]
   \<and> compute_liquidity_weighted_benchmark [mixed_series ! 1] = (Fin 2010, 3)"
proof -
  have "map_of (group_by_ts mixed_series) (seconds 10) = Some [mixed_series ! 1]"
    by (simp add: group_mixed seconds_def)
  moreover have "compute_liquidity_weighted_benchmark [mixed_series ! 1] = (Fin 2010, 3)"
    by (simp add: mixed_series_def compute_liquidity_weighted_benchmark_def venue_weights_def)
  moreover have "last_update_ts mixed_first = Some 0"
    "last_update_ts mixed_result = Some (seconds 10)"
    by (simp_all add: mixed_first_def mixed_result_def)
  ultimately show ?thesis
    using last_update_ts_valid_or_seed
            [of "group_by_ts mixed_series" initial_state 0 mixed_first
                "[0, seconds 10, seconds 20]" mixed_result mixed_series mixed_result]
          step_mixed loop_mixed run_mixed
    by simp
qed

subsection \<open>Timestamp order\<close>




section \<open>Properties of the swap arithmetic\<close>



section \<open>Properties of the swap summary\<close>

lemma sold_neq_bought: "tok1 @ ''_sold'' \<noteq> tok2 @ ''_bought''"
proof
  assume "tok1 @ ''_sold'' = tok2 @ ''_bought''"
  then have "last (tok1 @ ''_sold'') = last (tok2 @ ''_bought'')" by simp
  then show False by simp
qed

lemma summary_entry_dict_add:
  "summary_entry (dict_add s p' k' v) p k =
     (if p = p' \<and> k = k'
      then Some ((case summary_entry s p k of None \<Rightarrow> 0 | Some x \<Rightarrow> x) + v)
      else summary_entry s p k)"
  by (auto simp: summary_entry_def dict_add_def Let_def split: option.splits)

lemma dom_dict_add: "dom (dict_add s p k v) = insert p (dom s)"
  by (simp add: dict_add_def Let_def)

lemma loop_skips_others:
  "summarize_swaps_loop s es = summarize_swaps_loop s (swap_events es)"
  by (induction es arbitrary: s) (simp_all add: swap_events_def Let_def)

lemma flow_untouched:
  assumes "\<not> (\<exists>e\<in>set es.
             pool e = p \<and> (token_in e @ ''_sold'' = k \<or> token_out e @ ''_bought'' = k))"
  shows "sum_list (map (\<lambda>e. flow e p k) es) = 0"
  using assms by (induction es) (auto simp: flow_def)

lemma summary_entry_loop:
  "summary_entry (summarize_swaps_loop s es) p k =
     (if \<exists>e\<in>set (swap_events es).
           pool e = p \<and> (token_in e @ ''_sold'' = k \<or> token_out e @ ''_bought'' = k)
      then Some ((case summary_entry s p k of None \<Rightarrow> 0 | Some x \<Rightarrow> x)
                 + sum_list (map (\<lambda>e. flow e p k) (swap_events es)))
      else summary_entry s p k)"
proof (induction es arbitrary: s)
  case Nil
  then show ?case by (simp add: swap_events_def)
next
  case (Cons e es)
  show ?case
  proof (cases "event_type e = ''SWAP''")
    case False
    then have skip: "summarize_swaps_loop s (e # es) = summarize_swaps_loop s es"
      "swap_events (e # es) = swap_events es"
      by (simp_all add: swap_events_def)
    show ?thesis unfolding skip by (rule Cons.IH)
  next
    case True
    define s2 where "s2 = dict_add (dict_add s (pool e) (token_in e @ ''_sold'') (amount_in e))
                            (pool e) (token_out e @ ''_bought'') (amount_out e)"
    have step: "summarize_swaps_loop s (e # es) = summarize_swaps_loop s2 es"
      using True by (simp add: Let_def s2_def)
    have ent: "summary_entry s2 p k =
        (if pool e = p \<and> (token_in e @ ''_sold'' = k \<or> token_out e @ ''_bought'' = k)
         then Some ((case summary_entry s p k of None \<Rightarrow> 0 | Some x \<Rightarrow> x) + flow e p k)
         else summary_entry s p k)"
      using sold_neq_bought [of "token_in e" "token_out e"]
      by (auto simp: s2_def summary_entry_dict_add flow_def)
    have sw: "swap_events (e # es) = e # swap_events es"
      using True by (simp add: swap_events_def)
    show ?thesis
    proof (cases "\<exists>e\<in>set (swap_events es).
           pool e = p \<and> (token_in e @ ''_sold'' = k \<or> token_out e @ ''_bought'' = k)")
      case True
      then show ?thesis
        unfolding step Cons.IH [of s2] ent sw by (simp add: flow_def)
    next
      case False
      from flow_untouched [OF False] False show ?thesis
        unfolding step Cons.IH [of s2] ent sw by auto
    qed
  qed
qed

lemma dom_loop:
  "dom (summarize_swaps_loop s es) = dom s \<union> pool ` set (swap_events es)"
  by (induction es arbitrary: s) (auto simp: swap_events_def Let_def dom_dict_add)

lemma sum_list_flow:
  "sum_list (map (\<lambda>e. flow e p k) es) =
     sum_list (map amount_in (filter (\<lambda>e. pool e = p \<and> token_in e @ ''_sold'' = k) es))
     + sum_list (map amount_out (filter (\<lambda>e. pool e = p \<and> token_out e @ ''_bought'' = k) es))"
  by (induction es) (auto simp: flow_def)

text \<open>
  Claim C10. The summary depends on the SWAP events only: two event lists with the same SWAP
  events in the same order have the same summary. The pools of the summary are the pools of
  the SWAP events, and the entry of a pool under a key is the sum of \<open>amount_in\<close> over
  the pool's SWAP events whose sold key it is plus the sum of \<open>amount_out\<close> over the
  pool's SWAP events whose bought key it is; so \<open>TOKEN_sold\<close> holds the total sold of the
  token and \<open>TOKEN_bought\<close> the total bought. Sums are exact real sums.
\<close>

theorem summarize_swaps_only_swaps:
  "(swap_events es1 = swap_events es2 \<longrightarrow> summarize_swaps es1 = summarize_swaps es2)
   \<and> dom (summarize_swaps es) = pool ` set (swap_events es)
   \<and> summary_entry (summarize_swaps es) p k =
       (if \<exists>e\<in>set (swap_events es).
             pool e = p \<and> (token_in e @ ''_sold'' = k \<or> token_out e @ ''_bought'' = k)
        then Some
          (sum_list (map amount_in
             (filter (\<lambda>e. pool e = p \<and> token_in e @ ''_sold'' = k) (swap_events es)))
           + sum_list (map amount_out
             (filter (\<lambda>e. pool e = p \<and> token_out e @ ''_bought'' = k) (swap_events es))))
        else None)
   \<and> summary_entry (summarize_swaps es) p (tok @ ''_sold'') =
       (if \<exists>e\<in>set (swap_events es). pool e = p \<and> token_in e = tok
        then Some (sum_list (map amount_in
               (filter (\<lambda>e. pool e = p \<and> token_in e = tok) (swap_events es))))
        else None)
   \<and> summary_entry (summarize_swaps es) p (tok @ ''_bought'') =
       (if \<exists>e\<in>set (swap_events es). pool e = p \<and> token_out e = tok
        then Some (sum_list (map amount_out
               (filter (\<lambda>e. pool e = p \<and> token_out e = tok) (swap_events es))))
        else None)"
proof -
  have same: "swap_events es1 = swap_events es2 \<longrightarrow> summarize_swaps es1 = summarize_swaps es2"
    using loop_skips_others [of Map.empty es1] loop_skips_others [of Map.empty es2]
    by (simp add: summarize_swaps_def)
  have pools: "dom (summarize_swaps es) = pool ` set (swap_events es)"
    by (simp add: summarize_swaps_def dom_loop)
  have entry: "summary_entry (summarize_swaps es) p k =
       (if \<exists>e\<in>set (swap_events es).
             pool e = p \<and> (token_in e @ ''_sold'' = k \<or> token_out e @ ''_bought'' = k)
        then Some
          (sum_list (map amount_in
             (filter (\<lambda>e. pool e = p \<and> token_in e @ ''_sold'' = k) (swap_events es)))
           + sum_list (map amount_out
             (filter (\<lambda>e. pool e = p \<and> token_out e @ ''_bought'' = k) (swap_events es))))
        else None)" for k
    unfolding summarize_swaps_def summary_entry_loop sum_list_flow
    by (simp add: summary_entry_def)
  have sold: "summary_entry (summarize_swaps es) p (tok @ ''_sold'') =
       (if \<exists>e\<in>set (swap_events es). pool e = p \<and> token_in e = tok
        then Some (sum_list (map amount_in
               (filter (\<lambda>e. pool e = p \<and> token_in e = tok) (swap_events es))))
        else None)"
    unfolding entry by (simp add: sold_neq_bought [symmetric])
  have bought: "summary_entry (summarize_swaps es) p (tok @ ''_bought'') =
       (if \<exists>e\<in>set (swap_events es). pool e = p \<and> token_out e = tok
        then Some (sum_list (map amount_out
               (filter (\<lambda>e. pool e = p \<and> token_out e = tok) (swap_events es))))
        else None)"
    unfolding entry by (simp add: sold_neq_bought)
  from same pools entry [of k] sold bought show ?thesis
    by (intro conjI)
qed

lemma swap_events_synthetic:
  "swap_events synthetic_events = synthetic_swaps" "swap_events synthetic_swaps = synthetic_swaps"
  by (simp_all add: swap_events_def synthetic_events_def synthetic_swaps_def
      synthetic_transfer_def)

theorem summarize_swaps_only_swaps_witness:
  "summarize_swaps synthetic_events = summarize_swaps synthetic_swaps
   \<and> summary_entry (summarize_swaps synthetic_events) ''POOL_ETH_USDC'' ''ETH_sold'' = Some 1.2
   \<and> summary_entry (summarize_swaps synthetic_events) ''POOL_ETH_USDC'' ''ETH_bought'' = Some 2.45
   \<and> summary_entry (summarize_swaps synthetic_events) ''POOL_WBTC_USDC'' ''USDC_bought''
       = Some 18000
   \<and> summary_entry (summarize_swaps synthetic_events) ''POOL_WBTC_USDC'' ''ETH_sold'' = None"
proof -
  note t = summarize_swaps_only_swaps [of "[]" "[]" synthetic_events]
  have same: "summarize_swaps synthetic_events = summarize_swaps synthetic_swaps"
    using summarize_swaps_only_swaps [of synthetic_events synthetic_swaps "[]" "[]" "[]" "[]"]
    by (simp add: swap_events_synthetic)
  have sold_eth:
    "\<exists>e\<in>set synthetic_swaps. pool e = ''POOL_ETH_USDC'' \<and> token_in e = ''ETH''"
    "sum_list (map amount_in (filter (\<lambda>e. pool e = ''POOL_ETH_USDC'' \<and> token_in e = ''ETH'')
       synthetic_swaps)) = 1.2"
    by (simp_all add: synthetic_swaps_def)
  have bought_eth:
    "\<exists>e\<in>set synthetic_swaps. pool e = ''POOL_ETH_USDC'' \<and> token_out e = ''ETH''"
    "sum_list (map amount_out (filter (\<lambda>e. pool e = ''POOL_ETH_USDC'' \<and> token_out e = ''ETH'')
       synthetic_swaps)) = 2.45"
    by (simp_all add: synthetic_swaps_def)
  have bought_usdc:
    "\<exists>e\<in>set synthetic_swaps. pool e = ''POOL_WBTC_USDC'' \<and> token_out e = ''USDC''"
    "sum_list (map amount_out (filter (\<lambda>e. pool e = ''POOL_WBTC_USDC'' \<and> token_out e = ''USDC'')
       synthetic_swaps)) = 18000"
    by (simp_all add: synthetic_swaps_def)
  have no_eth:
    "\<not> (\<exists>e\<in>set synthetic_swaps. pool e = ''POOL_WBTC_USDC'' \<and> token_in e = ''ETH'')"
    by (simp add: synthetic_swaps_def)
  have a: "summary_entry (summarize_swaps synthetic_events) ''POOL_ETH_USDC'' ''ETH_sold''
      = Some 1.2"
    using t [of "''POOL_ETH_USDC''" "[]" "''ETH''"] sold_eth
    by (simp add: swap_events_synthetic)
  have b: "summary_entry (summarize_swaps synthetic_events) ''POOL_ETH_USDC'' ''ETH_bought''
      = Some 2.45"
    using t [of "''POOL_ETH_USDC''" "[]" "''ETH''"] bought_eth
    by (simp add: swap_events_synthetic)
  have c: "summary_entry (summarize_swaps synthetic_events) ''POOL_WBTC_USDC'' ''USDC_bought''
      = Some 18000"
    using t [of "''POOL_WBTC_USDC''" "[]" "''USDC''"] bought_usdc
    by (simp add: swap_events_synthetic)
  have d: "summary_entry (summarize_swaps synthetic_events) ''POOL_WBTC_USDC'' ''ETH_sold''
      = None"
    using t [of "''POOL_WBTC_USDC''" "[]" "''ETH''"] no_eth
    by (simp add: swap_events_synthetic)
  from same a b c d show ?thesis by (intro conjI)
qed

end
